theory Spec2Isabelle
  imports Main
begin

section \<open>Schema values\<close>

text \<open>
  A schema node is an in-memory Python value obtained from a JSON or YAML document:
  \<open>None\<close>, a boolean, an integer, a string, a list or a dict. A dict is an
  association list in insertion order (Python dicts keep insertion order; the keys of a
  dict built by Python are distinct). Floating point numbers are not part of the model.
\<close>

datatype json =
    JNull
  | JBool bool
  | JInt int
  | JStr string
  | JList "json list"
  | JDict "(string \<times> json) list"

datatype py_error = TypeError | KeyError | AttributeError | IndexError | ValueError

type_synonym 'a result = "py_error + 'a"

subsection \<open>The Python operations the module applies to a schema value\<close>

fun starts_with :: "string \<Rightarrow> string \<Rightarrow> bool" where
  "starts_with [] s = True"
| "starts_with (p # ps) [] = False"
| "starts_with (p # ps) (c # cs) = (p = c \<and> starts_with ps cs)"

text \<open>\<^verbatim>\<open>sub in s\<close> on two strings: \<open>sub\<close> occurs in \<open>s\<close> as a contiguous block.\<close>

fun str_contains :: "string \<Rightarrow> string \<Rightarrow> bool" where
  "str_contains sub [] = (sub = [])"
| "str_contains sub (c # cs) = (starts_with sub (c # cs) \<or> str_contains sub cs)"

text \<open>\<^verbatim>\<open>key in x\<close> for a string \<open>key\<close>: membership among the keys of a dict, among the
  elements of a list, as a substring of a string; a \<open>TypeError\<close> on anything else.\<close>

fun py_in :: "string \<Rightarrow> json \<Rightarrow> bool result" where
  "py_in key (JDict kvs) = Inr (key \<in> set (map fst kvs))"
| "py_in key (JList xs) = Inr (JStr key \<in> set xs)"
| "py_in key (JStr s) = Inr (str_contains key s)"
| "py_in key _ = Inl TypeError"

text \<open>\<^verbatim>\<open>x[key]\<close> for a string \<open>key\<close>: only a dict can be indexed by a string.\<close>

fun py_getitem :: "json \<Rightarrow> string \<Rightarrow> json result" where
  "py_getitem (JDict kvs) key = (case map_of kvs key of None \<Rightarrow> Inl KeyError | Some v \<Rightarrow> Inr v)"
| "py_getitem _ key = Inl TypeError"

text \<open>Iterating a value: the keys of a dict, the elements of a list, the one-character
  strings of a string. \<^verbatim>\<open>len(x)\<close> is defined for the same values and is the length
  of that sequence.\<close>

fun py_iter :: "json \<Rightarrow> json list result" where
  "py_iter (JDict kvs) = Inr (map (\<lambda>kv. JStr (fst kv)) kvs)"
| "py_iter (JList xs) = Inr xs"
| "py_iter (JStr s) = Inr (map (\<lambda>c. JStr [c]) s)"
| "py_iter _ = Inl TypeError"

text \<open>\<^verbatim>\<open>str(i)\<close> for a non-negative integer: its decimal digits.\<close>

fun str_nat :: "nat \<Rightarrow> string" where
  "str_nat n = (if n < 10 then [''0123456789'' ! n]
                else str_nat (n div 10) @ [''0123456789'' ! (n mod 10)])"

declare str_nat.simps [simp del]

section \<open>Schema walker\<close>

subsection \<open>\<^verbatim>\<open>get_subschemas\<close>\<close>

text \<open>
  The second component of the result is given as the sequence of sub-schemas that
  iterating the returned object yields (for the composition keywords the source returns
  \<^verbatim>\<open>schema[key]\<close> itself, and \<^verbatim>\<open>len\<close> fails on exactly the values
  that cannot be iterated).
\<close>

definition get_subschemas :: "json \<Rightarrow> string \<Rightarrow> (string list \<times> json list) result" where
  "get_subschemas schema key =
     (case py_getitem schema key of
        Inl e \<Rightarrow> Inl e
      | Inr v \<Rightarrow>
          if key = ''properties'' then
            (case v of JDict pm \<Rightarrow> Inr (map fst pm, map snd pm) | _ \<Rightarrow> Inl AttributeError)
          else if key = ''additionalProperties'' then
            (case v of JDict _ \<Rightarrow> Inr ([''*''], [v]) | _ \<Rightarrow> Inr ([], []))
          else if key = ''items'' then Inr ([''[i]''], [v])
          else if key \<in> set [''not'', ''if'', ''then'', ''else''] then Inr ([key], [v])
          else
            (case py_iter v of
               Inl e \<Rightarrow> Inl e
             | Inr subs \<Rightarrow>
                 Inr (map (\<lambda>i. key @ ''['' @ str_nat i @ '']'') [1 ..< length subs + 1], subs)))"

subsection \<open>\<^verbatim>\<open>needs_separate_section\<close>\<close>

definition structural_keys :: "string list" where
  "structural_keys =
     [''properties'', ''additionalProperties'', ''items'', ''not'', ''if'', ''then'', ''else'',
      ''anyOf'', ''oneOf'', ''allOf'']"

text \<open>A \<^verbatim>\<open>for\<close> loop whose body may return \<open>True\<close> from the enclosing function:
  the loop stops at the first element whose body raises or returns \<open>True\<close>.\<close>

fun any_m :: "('a \<Rightarrow> bool result) \<Rightarrow> 'a list \<Rightarrow> bool result" where
  "any_m f [] = Inr False"
| "any_m f (x # xs) =
     (case f x of Inl e \<Rightarrow> Inl e | Inr b \<Rightarrow> if b then Inr True else any_m f xs)"

lemma any_m_cong [fundef_cong]:
  "xs = ys \<Longrightarrow> (\<And>x. x \<in> set ys \<Longrightarrow> f x = g x) \<Longrightarrow> any_m f xs = any_m g ys"
  by (induction ys arbitrary: xs) (auto split: sum.splits)

lemma size_map_of: "map_of kvs k = Some v \<Longrightarrow> size v < size (JDict kvs)"
  by (induction kvs) (auto split: if_splits)

lemma size_dict_value: "(k, v) \<in> set kvs \<Longrightarrow> size v < Suc (size_list (size_prod (\<lambda>_. 0) size) kvs)"
  by (induction kvs) auto

lemma size_list_elem: "x \<in> set xs \<Longrightarrow> size x < Suc (size_list size xs)"
  by (induction xs) auto

lemma get_subschemas_Some:
  assumes "get_subschemas (JDict kvs) key = Inr (labels, subs)"
  shows "\<exists>v. map_of kvs key = Some v"
  using assms by (simp add: get_subschemas_def split: option.splits)

lemma get_subschemas_single:
  assumes "map_of kvs key = Some v"
    and "key \<in> set [''items'', ''not'', ''if'', ''then'', ''else'']"
  shows "get_subschemas (JDict kvs) key = Inr ([if key = ''items'' then ''[i]'' else key], [v])"
proof -
  consider "key = ''items''" | "key = ''not''" | "key = ''if''" | "key = ''then''" | "key = ''else''"
    using assms(2) by fastforce
  then show ?thesis
    using assms(1) by cases (simp_all add: get_subschemas_def)
qed

lemma get_subschemas_shape:
  assumes "get_subschemas (JDict kvs) key = Inr (labels, subs)" and v: "map_of kvs key = Some v"
  shows "subs = [] \<or> subs = [v] \<or> (\<exists>pm. v = JDict pm \<and> subs = map snd pm) \<or> py_iter v = Inr subs"
proof -
  consider (p) "key = ''properties''" | (a) "key = ''additionalProperties''"
    | (i) "key \<in> set [''items'', ''not'', ''if'', ''then'', ''else'']"
    | (c) "key \<noteq> ''properties''" "key \<noteq> ''additionalProperties''" "key \<noteq> ''items''"
          "key \<notin> set [''not'', ''if'', ''then'', ''else'']"
    by fastforce
  then show ?thesis
  proof cases
    case p
    then show ?thesis using assms by (cases v) (simp_all add: get_subschemas_def)
  next
    case a
    then show ?thesis using assms by (cases v) (simp_all add: get_subschemas_def)
  next
    case i
    then show ?thesis using assms get_subschemas_single [OF v i] by simp
  next
    case c
    then show ?thesis using assms by (cases "py_iter v") (simp_all add: get_subschemas_def)
  qed
qed

lemma get_subschemas_size:
  assumes "get_subschemas schema key = Inr (labels, subs)" and "sub \<in> set subs"
  shows "size sub < size schema"
proof (cases schema)
  case (JDict kvs)
  then obtain v where v: "map_of kvs key = Some v"
    using assms(1) get_subschemas_Some by blast
  have less: "size v < size schema"
    using v JDict size_map_of by blast
  have pos: "0 < size schema"
    using JDict by simp
  consider (a) "sub = v" | (b) pm where "v = JDict pm" "sub \<in> set (map snd pm)"
    | (c) "py_iter v = Inr subs"
    using get_subschemas_shape [OF assms(1) [unfolded JDict] v] assms(2) by auto
  then show ?thesis
  proof cases
    case a
    then show ?thesis using less by simp
  next
    case b
    then obtain k where "(k, sub) \<in> set pm" by auto
    then have "size sub < size v" using b size_dict_value by simp
    then show ?thesis using less by simp
  next
    case c
    show ?thesis
    proof (cases v)
      case (JList xs)
      then have "size sub < size v" using c assms(2) size_list_elem by auto
      then show ?thesis using less by simp
    next
      case (JDict pm)
      then show ?thesis using c assms(2) pos by auto
    next
      case (JStr s)
      then show ?thesis using c assms(2) pos by auto
    qed (use c in auto)
  qed
qed (use assms in \<open>simp_all add: get_subschemas_def\<close>)

function needs_separate_section :: "json \<Rightarrow> int \<Rightarrow> int \<Rightarrow> bool result" where
  "needs_separate_section schema max_nesting rec =
     (case py_in ''$ref'' schema of
        Inl e \<Rightarrow> Inl e
      | Inr has_ref \<Rightarrow>
          if has_ref then Inr False
          else
            any_m (\<lambda>key.
              case py_in key schema of
                Inl e \<Rightarrow> Inl e
              | Inr present \<Rightarrow>
                  if \<not> present then Inr False
                  else if rec \<ge> max_nesting then Inr True
                  else
                    (case get_subschemas schema key of
                       Inl e \<Rightarrow> Inl e
                     | Inr (labels, subs) \<Rightarrow>
                         any_m (\<lambda>subschema.
                           needs_separate_section subschema max_nesting (rec + 1)) subs))
              structural_keys)"
  by pat_completeness auto
termination
  by (relation "measure (\<lambda>(schema, max_nesting, rec). size schema)")
     (auto dest: get_subschemas_size)

declare needs_separate_section.simps [simp del]

subsection \<open>Nesting as the walker sees it\<close>

definition composition_keys :: "string list" where
  "composition_keys = [''anyOf'', ''oneOf'', ''allOf'']"

definition walker_children :: "json \<Rightarrow> json list" where
  "walker_children schema =
     concat (map (\<lambda>key. case get_subschemas schema key of Inl e \<Rightarrow> [] | Inr (labels, subs) \<Rightarrow> subs)
               structural_keys)"

lemma walker_children_size: "c \<in> set (walker_children schema) \<Longrightarrow> size c < size schema"
  by (auto simp: walker_children_def split: sum.splits dest: get_subschemas_size [OF sym])

definition has_key :: "string \<Rightarrow> json \<Rightarrow> bool" where
  "has_key key schema = (case schema of JDict kvs \<Rightarrow> key \<in> set (map fst kvs) | _ \<Rightarrow> False)"

definition has_structural :: "json \<Rightarrow> bool" where
  "has_structural schema = list_ex (\<lambda>key. has_key key schema) structural_keys"

fun max_list :: "nat list \<Rightarrow> nat" where
  "max_list [] = 0"
| "max_list (n # ns) = max n (max_list ns)"

function nesting :: "json \<Rightarrow> nat" where
  "nesting schema =
     (if has_key ''$ref'' schema \<or> \<not> has_structural schema then 0
      else Suc (max_list (map nesting (walker_children schema))))"
  by pat_completeness auto
termination
  by (relation "measure size") (auto dest: walker_children_size)

declare nesting.simps [simp del]

fun is_dict :: "json \<Rightarrow> bool" where
  "is_dict (JDict kvs) = True"
| "is_dict _ = False"

fun is_list :: "json \<Rightarrow> bool" where
  "is_list (JList xs) = True"
| "is_list _ = False"

definition shape_ok :: "json \<Rightarrow> bool" where
  "shape_ok schema =
     (case schema of
        JDict kvs \<Rightarrow>
          (case map_of kvs ''properties'' of None \<Rightarrow> True | Some v \<Rightarrow> is_dict v) \<and>
          list_all (\<lambda>key. case map_of kvs key of None \<Rightarrow> True | Some v \<Rightarrow> is_list v) composition_keys
      | _ \<Rightarrow> False)"

function wf_schema :: "json \<Rightarrow> bool" where
  "wf_schema schema =
     (is_dict schema \<and>
      (has_key ''$ref'' schema \<or> (shape_ok schema \<and> list_all wf_schema (walker_children schema))))"
  by pat_completeness auto
termination
  by (relation "measure size") (auto dest: walker_children_size)

declare wf_schema.simps [simp del]


lemma any_m_Inr:
  "(\<And>x. x \<in> set xs \<Longrightarrow> f x = Inr (p x)) \<Longrightarrow> any_m f xs = Inr (\<exists>x\<in>set xs. p x)"
  by (induction xs) auto

lemma max_list_less: "(k < max_list ns) = (\<exists>n\<in>set ns. k < n)"
  by (induction ns) auto

definition subs_of :: "json \<Rightarrow> string \<Rightarrow> json list" where
  "subs_of schema key = (case get_subschemas schema key of Inl e \<Rightarrow> [] | Inr (labels, subs) \<Rightarrow> subs)"

lemma walker_children_set:
  "set (walker_children schema) = (\<Union>key\<in>set structural_keys. set (subs_of schema key))"
  by (simp add: walker_children_def subs_of_def)

lemma get_subschemas_absent:
  "key \<notin> set (map fst kvs) \<Longrightarrow> get_subschemas (JDict kvs) key = Inl KeyError"
  by (simp add: get_subschemas_def map_of_eq_None_iff [symmetric] del: map_of_eq_None_iff)

lemma get_subschemas_present_ok:
  assumes ok: "shape_ok (JDict kvs)" and key: "key \<in> set structural_keys"
    and present: "key \<in> set (map fst kvs)"
  shows "\<exists>labels subs. get_subschemas (JDict kvs) key = Inr (labels, subs)"
proof -
  obtain v where v: "map_of kvs key = Some v"
    using present by (metis map_of_eq_None_iff not_Some_eq set_map)
  consider (p) "key = ''properties''" | (a) "key = ''additionalProperties''"
    | (i) "key \<in> set [''items'', ''not'', ''if'', ''then'', ''else'']"
    | (c) "key \<in> set composition_keys"
    using key unfolding structural_keys_def composition_keys_def by fastforce
  then show ?thesis
  proof cases
    case p
    then have "is_dict v" using ok v by (simp add: shape_ok_def)
    then show ?thesis using p v by (cases v) (simp_all add: get_subschemas_def)
  next
    case a
    then show ?thesis using v by (cases v) (simp_all add: get_subschemas_def)
  next
    case i
    then show ?thesis using get_subschemas_single [OF v i] by blast
  next
    case c
    then have "is_list v" using ok v by (auto simp: shape_ok_def list_all_iff)
    then obtain xs where xs: "v = JList xs" by (cases v) simp_all
    consider "key = ''anyOf''" | "key = ''oneOf''" | "key = ''allOf''"
      using c unfolding composition_keys_def by fastforce
    then show ?thesis using v xs by cases (simp_all add: get_subschemas_def)
  qed
qed

text \<open>
  The words of the specification about nesting. \<open>structural_at k schema\<close>: the walker,
  starting at \<open>schema\<close>, reaches \<open>k\<close> levels further down a node that holds a structural
  keyword. A node with \<open>$ref\<close> is a leaf of the walk: nothing below it is reached, and it
  does not count as a node that holds structural keywords.
  \<open>composition_free\<close>: no dict anywhere in the value has one of the composition keywords
  as a key.
  \<open>keyword_at k schema\<close> is the reading that gives \<open>$ref\<close> no role: some node \<open>k\<close> levels
  below \<open>schema\<close>, along the sub-schemas of the structural keywords, holds a structural
  keyword, whether or not the nodes on the way have \<open>$ref\<close>.
\<close>

fun composition_free :: "json \<Rightarrow> bool" where
  "composition_free (JDict kvs) =
     list_all (\<lambda>(k, v). k \<notin> set composition_keys \<and> composition_free v) kvs"
| "composition_free (JList xs) = list_all composition_free xs"
| "composition_free _ = True"

primrec structural_at :: "nat \<Rightarrow> json \<Rightarrow> bool" where
  "structural_at 0 schema = (\<not> has_key ''$ref'' schema \<and> has_structural schema)"
| "structural_at (Suc k) schema =
     (\<not> has_key ''$ref'' schema \<and> list_ex (structural_at k) (walker_children schema))"

primrec keyword_at :: "nat \<Rightarrow> json \<Rightarrow> bool" where
  "keyword_at 0 schema = has_structural schema"
| "keyword_at (Suc k) schema = list_ex (keyword_at k) (walker_children schema)"

lemma walker_children_none: "\<not> has_structural schema \<Longrightarrow> walker_children schema = []"
proof (cases schema)
  case (JDict kvs)
  assume "\<not> has_structural schema"
  then have "\<And>key. key \<in> set structural_keys \<Longrightarrow> get_subschemas schema key = Inl KeyError"
    using JDict get_subschemas_absent by (auto simp: has_structural_def list_ex_iff has_key_def)
  then show ?thesis by (simp add: walker_children_def)
qed (simp_all add: walker_children_def get_subschemas_def)

lemma structural_at_nesting: "structural_at k schema \<longleftrightarrow> k < nesting schema"
proof (induction k arbitrary: schema)
  case 0
  show ?case by (simp add: nesting.simps [of schema])
next
  case (Suc k)
  show ?case
  proof (cases "has_key ''$ref'' schema \<or> \<not> has_structural schema")
    case True
    then show ?thesis
      using walker_children_none [of schema] by (auto simp: nesting.simps [of schema])
  next
    case False
    then have "nesting schema = Suc (max_list (map nesting (walker_children schema)))"
      by (simp add: nesting.simps [of schema])
    then show ?thesis using False Suc by (simp add: max_list_less list_ex_iff)
  qed
qed

lemma needs_separate_section_nesting:
  "wf_schema schema \<Longrightarrow>
   needs_separate_section schema max_nesting rec =
     Inr (0 < nesting schema \<and> max_nesting < rec + int (nesting schema))"
proof (induction schema arbitrary: rec rule: measure_induct_rule [of size])
  case (less schema)
  from less.prems obtain kvs where s: "schema = JDict kvs"
    by (cases schema) (simp_all add: wf_schema.simps)
  show ?case
  proof (cases "has_key ''$ref'' schema")
    case True
    then show ?thesis
      using s by (simp add: needs_separate_section.simps nesting.simps has_key_def)
  next
    case False
    then have ok: "shape_ok schema" and wfc: "\<And>c. c \<in> set (walker_children schema) \<Longrightarrow> wf_schema c"
      using less.prems by (simp_all add: wf_schema.simps [of schema] list_all_iff)
    define q where "q key \<longleftrightarrow> key \<in> set (map fst kvs) \<and>
        (max_nesting \<le> rec \<or>
         (\<exists>c\<in>set (subs_of schema key). 0 < nesting c \<and> max_nesting < rec + 1 + int (nesting c)))" for key
    define f where "f = (\<lambda>key.
              case py_in key schema of
                Inl e \<Rightarrow> Inl e
              | Inr present \<Rightarrow>
                  if \<not> present then Inr False
                  else if rec \<ge> max_nesting then Inr True
                  else
                    (case get_subschemas schema key of
                       Inl e \<Rightarrow> Inl e
                     | Inr (labels, subs) \<Rightarrow>
                         any_m (\<lambda>subschema.
                           needs_separate_section subschema max_nesting (rec + 1)) subs))"
    have fq: "f key = Inr (q key)" if key: "key \<in> set structural_keys" for key
    proof (cases "key \<in> set (map fst kvs)")
      case absent: False
      then show ?thesis by (simp add: f_def q_def s)
    next
      case present: True
      show ?thesis
      proof (cases "max_nesting \<le> rec")
        case True
        then show ?thesis using present by (simp add: f_def q_def s)
      next
        case deeper: False
        obtain labels subs where g: "get_subschemas schema key = Inr (labels, subs)"
          using get_subschemas_present_ok [OF ok [unfolded s] key present] s by blast
        have subs: "subs_of schema key = subs"
          using g by (simp add: subs_of_def)
        have "any_m (\<lambda>subschema. needs_separate_section subschema max_nesting (rec + 1)) subs
              = Inr (\<exists>c\<in>set subs. 0 < nesting c \<and> max_nesting < rec + 1 + int (nesting c))"
        proof (rule any_m_Inr)
          fix c assume c: "c \<in> set subs"
          then have "c \<in> set (walker_children schema)"
            using key subs by (auto simp: walker_children_set)
          then show "needs_separate_section c max_nesting (rec + 1)
                     = Inr (0 < nesting c \<and> max_nesting < rec + 1 + int (nesting c))"
            using less.IH [of c "rec + 1"] wfc walker_children_size by simp
        qed
        then show ?thesis
          using present deeper g subs by (simp add: f_def q_def s)
      qed
    qed
    have "needs_separate_section schema max_nesting rec = any_m f structural_keys"
      using False unfolding f_def
      by (subst needs_separate_section.simps) (simp add: s has_key_def)
    then have run: "needs_separate_section schema max_nesting rec = Inr (\<exists>key\<in>set structural_keys. q key)"
      using any_m_Inr [of structural_keys f q, OF fq] by simp
    show ?thesis
    proof (cases "has_structural schema")
      case none: False
      then have "\<not> (\<exists>key\<in>set structural_keys. q key)"
        by (auto simp: has_structural_def list_ex_iff has_key_def s q_def)
      then show ?thesis using run none by (simp add: nesting.simps [of schema])
    next
      case some: True
      then obtain k0 where k0: "k0 \<in> set structural_keys" "k0 \<in> set (map fst kvs)"
        by (auto simp: has_structural_def list_ex_iff has_key_def s)
      have n: "nesting schema = Suc (max_list (map nesting (walker_children schema)))"
        using False some by (simp add: nesting.simps [of schema])
      have absent_subs: "subs_of schema key = []" if "key \<notin> set (map fst kvs)" for key
        using that get_subschemas_absent [of key kvs] by (simp add: subs_of_def s)
      have "(\<exists>key\<in>set structural_keys. q key) \<longleftrightarrow>
            (max_nesting \<le> rec \<or> (\<exists>c\<in>set (walker_children schema).
                 0 < nesting c \<and> max_nesting < rec + 1 + int (nesting c)))"
        unfolding walker_children_set q_def using k0 absent_subs by fastforce
      also have "\<dots> \<longleftrightarrow> max_nesting < rec + int (nesting schema)"
      proof (cases "max_nesting \<le> rec")
        case True
        then show ?thesis unfolding n by simp
      next
        case deeper: False
        have "(\<exists>c\<in>set (walker_children schema). 0 < nesting c \<and> max_nesting < rec + 1 + int (nesting c))
              \<longleftrightarrow> (\<exists>m\<in>set (map nesting (walker_children schema)). nat (max_nesting - rec - 1) < m)"
        proof -
          have "(0 < m \<and> max_nesting < rec + 1 + int m) \<longleftrightarrow> nat (max_nesting - rec - 1) < m" for m :: nat
            using deeper by linarith
          then show ?thesis by simp
        qed
        also have "\<dots> \<longleftrightarrow> nat (max_nesting - rec - 1) < max_list (map nesting (walker_children schema))"
          by (simp only: max_list_less)
        also have "\<dots> \<longleftrightarrow> max_nesting < rec + int (nesting schema)"
          using deeper unfolding n by auto
        finally show ?thesis using deeper by simp
      qed
      finally show ?thesis using run n by simp
    qed
  qed
qed

text \<open>
  C1. A dict that has the key \<open>$ref\<close> never needs a separate section: the answer is
  \<open>False\<close> for every nesting limit, every depth and whatever else the dict holds.
\<close>

theorem needs_separate_section_ref:
  "''$ref'' \<in> set (map fst kvs) \<Longrightarrow> needs_separate_section (JDict kvs) max_nesting rec = Inr False"
  by (simp add: needs_separate_section.simps)

theorem needs_separate_section_ref_witness:
  "needs_separate_section
     (JDict [(''$ref'', JStr ''common.yaml#/defs/Foo''),
             (''anyOf'', JList [JDict [(''items'', JDict [(''items'', JDict [(''items'', JDict [])])])]])])
     0 5 = Inr False"
  using needs_separate_section_ref
    [of "[(''$ref'', JStr ''common.yaml#/defs/Foo''),
          (''anyOf'', JList [JDict [(''items'', JDict [(''items'', JDict [(''items'', JDict [])])])]])]" 0 5]
  by simp

text \<open>The schema \<^verbatim>\<open>{"properties": {"a": {"items": {"type": "string"}}}}\<close>: structural
  keywords at depths 0 and 1.\<close>

definition nested_example :: json where
  "nested_example =
     JDict [(''properties'', JDict [(''a'', JDict [(''items'', JDict [(''type'', JStr ''string'')])])])]"

text \<open>
  C2 (amended). Let \<open>schema\<close> be a well-formed node, examined at depth \<open>rec\<close> (the public
  call has \<open>rec = 0\<close>), so that a node \<open>k\<close> levels further down is at depth \<open>rec + k\<close>.
  Nesting is counted as the walk goes: a node with \<open>$ref\<close> is a leaf, its keywords do not
  count as structural and nothing below it is reached.
  If the node has no \<open>$ref\<close>, no composition keyword occurs anywhere in it, and every
  node so reached that holds a structural keyword lies at a depth strictly below
  \<open>max_nesting\<close>, the answer is \<open>False\<close>. If some node without \<open>$ref\<close> that holds a
  structural keyword is reached, through nodes without \<open>$ref\<close>, at a depth
  \<open>\<ge> max_nesting\<close>, the answer is \<open>True\<close>.
\<close>

theorem needs_separate_section_depth:
  assumes "wf_schema schema"
  shows "(\<not> has_key ''$ref'' schema \<and> composition_free schema \<and>
          (\<forall>k. structural_at k schema \<longrightarrow> rec + int k < max_nesting)
            \<longrightarrow> needs_separate_section schema max_nesting rec = Inr False) \<and>
         ((\<exists>k. structural_at k schema \<and> max_nesting \<le> rec + int k)
            \<longrightarrow> needs_separate_section schema max_nesting rec = Inr True)"
proof (intro conjI impI)
  assume "\<not> has_key ''$ref'' schema \<and> composition_free schema \<and>
          (\<forall>k. structural_at k schema \<longrightarrow> rec + int k < max_nesting)"
  then have all: "\<And>k. k < nesting schema \<Longrightarrow> rec + int k < max_nesting"
    by (simp add: structural_at_nesting)
  have "\<not> (0 < nesting schema \<and> max_nesting < rec + int (nesting schema))"
  proof
    assume a: "0 < nesting schema \<and> max_nesting < rec + int (nesting schema)"
    then have "rec + int (nesting schema - 1) < max_nesting" using all [of "nesting schema - 1"] by simp
    then show False using a by linarith
  qed
  then show "needs_separate_section schema max_nesting rec = Inr False"
    using needs_separate_section_nesting [OF assms] by simp
next
  assume "\<exists>k. structural_at k schema \<and> max_nesting \<le> rec + int k"
  then obtain k where "k < nesting schema" "max_nesting \<le> rec + int k"
    by (auto simp: structural_at_nesting)
  then have "0 < nesting schema \<and> max_nesting < rec + int (nesting schema)" by linarith
  then show "needs_separate_section schema max_nesting rec = Inr True"
    using needs_separate_section_nesting [OF assms] by simp
qed

theorem needs_separate_section_depth_witness:
  "wf_schema nested_example \<and> composition_free nested_example \<and>
   \<not> has_key ''$ref'' nested_example \<and>
   needs_separate_section nested_example 2 0 = Inr False \<and>
   needs_separate_section nested_example 1 0 = Inr True"
proof -
  have wf: "wf_schema nested_example"
    unfolding nested_example_def by code_simp
  have cf: "composition_free nested_example"
    unfolding nested_example_def by code_simp
  have nr: "\<not> has_key ''$ref'' nested_example"
    unfolding nested_example_def by code_simp
  have n: "nesting nested_example = 2"
    unfolding nested_example_def by code_simp
  have within: "\<forall>k. structural_at k nested_example \<longrightarrow> 0 + int k < 2"
    by (simp add: structural_at_nesting n)
  have "structural_at 1 nested_example \<and> (1::int) \<le> 0 + int 1"
    by (simp add: structural_at_nesting n)
  then have reach: "\<exists>k. structural_at k nested_example \<and> 1 \<le> 0 + int k" ..
  have f: "needs_separate_section nested_example 2 0 = Inr False"
    using needs_separate_section_depth [OF wf, of 0 2] nr cf within by blast
  have t: "needs_separate_section nested_example 1 0 = Inr True"
    using needs_separate_section_depth [OF wf, of 0 1] reach by blast
  show ?thesis
    using wf cf nr f t by blast
qed

text \<open>The schema \<^verbatim>\<open>{"properties": {"a": {"$ref": "x.yaml", "items": {"type": "string"}}}}\<close>:
  the only node one level down that holds a structural keyword has \<open>$ref\<close>.\<close>

definition ref_nested_example :: json where
  "ref_nested_example =
     JDict [(''properties'',
             JDict [(''a'', JDict [(''$ref'', JStr ''x.yaml''),
                                   (''items'', JDict [(''type'', JStr ''string'')])])])]"

text \<open>
  C2 as stated, with no word about \<open>$ref\<close> below the node examined, fails: in the
  schema above the root has no \<open>$ref\<close>, the node \<open>a\<close> lies at depth \<open>1\<close> and holds the
  structural keyword \<open>items\<close>, yet at \<open>max_nesting = 1\<close> the answer is \<open>False\<close>, because
  \<open>a\<close> has \<open>$ref\<close>.
\<close>

theorem needs_separate_section_depth_counterexample:
  "wf_schema ref_nested_example \<and> \<not> has_key ''$ref'' ref_nested_example \<and>
   keyword_at 1 ref_nested_example \<and> \<not> structural_at 1 ref_nested_example \<and>
   needs_separate_section ref_nested_example 1 0 = Inr False"
proof -
  have wf: "wf_schema ref_nested_example"
    unfolding ref_nested_example_def by code_simp
  have nr: "\<not> has_key ''$ref'' ref_nested_example"
    unfolding ref_nested_example_def by code_simp
  have ka: "keyword_at 1 ref_nested_example"
    unfolding ref_nested_example_def by code_simp
  have sa: "\<not> structural_at 1 ref_nested_example"
    unfolding ref_nested_example_def by code_simp
  have r: "needs_separate_section ref_nested_example 1 0 = Inr False"
    unfolding ref_nested_example_def by code_simp
  show ?thesis
    using wf nr ka sa r by blast
qed

text \<open>
  C3. The source gives the composition keywords no treatment of their own: they are
  walked like every other structural keyword. A node whose only content is an
  \<open>anyOf\<close> of one plain string schema, at the default limit \<open>2\<close> and depth \<open>0\<close>, is
  answered \<open>False\<close>.
\<close>

theorem needs_separate_section_anyOf_inline:
  "needs_separate_section (JDict [(''anyOf'', JList [JDict [(''type'', JStr ''string'')]])]) 2 0 = Inr False"
  by code_simp

lemma get_subschemas_length:
  assumes "get_subschemas schema key = Inr (labels, subs)"
  shows "length labels = length subs"
proof (cases schema)
  case (JDict kvs)
  then obtain v where v: "map_of kvs key = Some v"
    using assms get_subschemas_Some by blast
  consider (p) "key = ''properties''" | (a) "key = ''additionalProperties''"
    | (i) "key \<in> set [''items'', ''not'', ''if'', ''then'', ''else'']"
    | (c) "key \<noteq> ''properties''" "key \<noteq> ''additionalProperties''" "key \<noteq> ''items''"
          "key \<notin> set [''not'', ''if'', ''then'', ''else'']"
    by fastforce
  then show ?thesis
  proof cases
    case p
    then show ?thesis using assms v JDict by (cases v) (auto simp: get_subschemas_def)
  next
    case a
    then show ?thesis using assms v JDict by (cases v) (auto simp: get_subschemas_def)
  next
    case i
    from get_subschemas_single [OF v i] assms JDict
    have "labels = [if key = ''items'' then ''[i]'' else key]" and "subs = [v]"
      by simp_all
    then show ?thesis by simp
  next
    case c
    then show ?thesis using assms v JDict
      by (cases "py_iter v") (auto simp: get_subschemas_def simp del: upt_Suc)
  qed
qed (use assms in \<open>simp_all add: get_subschemas_def\<close>)

text \<open>
  C6. When the requested key is present in the node, \<open>get_subschemas\<close> returns two
  parallel sequences of equal length: for \<open>properties\<close> (a dict) the property names in
  insertion order and their schemas; for \<open>additionalProperties\<close> the label \<open>*\<close> and
  the node when the value is a dict, two empty sequences when it is a boolean; for
  \<open>items\<close> the label \<open>[i]\<close> and the items schema; for \<open>not\<close>, \<open>if\<close>, \<open>then\<close>,
  \<open>else\<close> the key and the node; for \<open>anyOf\<close>, \<open>oneOf\<close>, \<open>allOf\<close> (a list) the labels
  \<open>key[1]\<close> ... \<open>key[n]\<close> and the list elements in order.
\<close>

theorem get_subschemas_spec:
  assumes "map_of kvs key = Some v"
  shows "(key = ''properties'' \<and> v = JDict pm \<longrightarrow>
            get_subschemas (JDict kvs) key = Inr (map fst pm, map snd pm)) \<and>
         (key = ''additionalProperties'' \<and> v = JDict d \<longrightarrow>
            get_subschemas (JDict kvs) key = Inr ([''*''], [v])) \<and>
         (key = ''additionalProperties'' \<and> v = JBool b \<longrightarrow>
            get_subschemas (JDict kvs) key = Inr ([], [])) \<and>
         (key = ''items'' \<longrightarrow> get_subschemas (JDict kvs) key = Inr ([''[i]''], [v])) \<and>
         (key \<in> set [''not'', ''if'', ''then'', ''else''] \<longrightarrow>
            get_subschemas (JDict kvs) key = Inr ([key], [v])) \<and>
         (key \<in> set composition_keys \<and> v = JList xs \<longrightarrow>
            get_subschemas (JDict kvs) key =
              Inr (map (\<lambda>i. key @ ''['' @ str_nat (Suc i) @ '']'') [0 ..< length xs], xs)) \<and>
         (\<forall>labels subs. get_subschemas (JDict kvs) key = Inr (labels, subs) \<longrightarrow>
            length labels = length subs)"
proof (intro conjI impI allI)
  assume "key = ''properties'' \<and> v = JDict pm"
  then show "get_subschemas (JDict kvs) key = Inr (map fst pm, map snd pm)"
    using assms by (simp add: get_subschemas_def)
next
  assume "key = ''additionalProperties'' \<and> v = JDict d"
  then show "get_subschemas (JDict kvs) key = Inr ([''*''], [v])"
    using assms by (simp add: get_subschemas_def)
next
  assume "key = ''additionalProperties'' \<and> v = JBool b"
  then show "get_subschemas (JDict kvs) key = Inr ([], [])"
    using assms by (simp add: get_subschemas_def)
next
  assume "key = ''items''"
  then show "get_subschemas (JDict kvs) key = Inr ([''[i]''], [v])"
    using assms by (simp add: get_subschemas_def)
next
  assume k: "key \<in> set [''not'', ''if'', ''then'', ''else'']"
  then consider "key = ''not''" | "key = ''if''" | "key = ''then''" | "key = ''else''"
    by fastforce
  then show "get_subschemas (JDict kvs) key = Inr ([key], [v])"
    using assms by cases (simp_all add: get_subschemas_def)
next
  assume c: "key \<in> set composition_keys \<and> v = JList xs"
  have idx: "map (\<lambda>i. key @ ''['' @ str_nat i @ '']'') [1 ..< length xs + 1]
             = map (\<lambda>i. key @ ''['' @ str_nat (Suc i) @ '']'') [0 ..< length xs]"
  proof -
    have "[1 ..< length xs + 1] = map Suc [0 ..< length xs]"
      by (simp add: map_Suc_upt del: upt_Suc)
    then show ?thesis by (simp only: map_map comp_def)
  qed
  from c consider "key = ''anyOf''" | "key = ''oneOf''" | "key = ''allOf''"
    unfolding composition_keys_def by fastforce
  then have "get_subschemas (JDict kvs) key =
      Inr (map (\<lambda>i. key @ ''['' @ str_nat i @ '']'') [1 ..< length xs + 1], xs)"
    using assms c by cases (simp_all add: get_subschemas_def)
  then show "get_subschemas (JDict kvs) key =
      Inr (map (\<lambda>i. key @ ''['' @ str_nat (Suc i) @ '']'') [0 ..< length xs], xs)"
    using idx by simp
next
  fix labels subs
  assume "get_subschemas (JDict kvs) key = Inr (labels, subs)"
  then show "length labels = length subs" by (rule get_subschemas_length)
qed


text \<open>A node that holds one keyword of each kind.\<close>

definition walker_example :: "(string \<times> json) list" where
  "walker_example =
     [(''properties'', JDict [(''b'', JDict [(''type'', JStr ''string'')]), (''a'', JDict [])]),
      (''additionalProperties'', JBool False),
      (''items'', JDict [(''type'', JStr ''integer'')]),
      (''not'', JDict []),
      (''anyOf'', JList [JDict [], JDict [(''type'', JStr ''null'')]])]"

theorem get_subschemas_spec_witness:
  "get_subschemas (JDict walker_example) ''properties''
     = Inr ([''b'', ''a''], [JDict [(''type'', JStr ''string'')], JDict []]) \<and>
   get_subschemas (JDict [(''additionalProperties'', JDict [])]) ''additionalProperties''
     = Inr ([''*''], [JDict []]) \<and>
   get_subschemas (JDict walker_example) ''additionalProperties'' = Inr ([], []) \<and>
   get_subschemas (JDict walker_example) ''items'' = Inr ([''[i]''], [JDict [(''type'', JStr ''integer'')]]) \<and>
   get_subschemas (JDict walker_example) ''not'' = Inr ([''not''], [JDict []]) \<and>
   get_subschemas (JDict walker_example) ''anyOf''
     = Inr ([''anyOf[1]'', ''anyOf[2]''], [JDict [], JDict [(''type'', JStr ''null'')]])"
proof -
  have p: "map_of walker_example ''properties''
             = Some (JDict [(''b'', JDict [(''type'', JStr ''string'')]), (''a'', JDict [])])"
    and a: "map_of walker_example ''additionalProperties'' = Some (JBool False)"
    and i: "map_of walker_example ''items'' = Some (JDict [(''type'', JStr ''integer'')])"
    and n: "map_of walker_example ''not'' = Some (JDict [])"
    and c: "map_of walker_example ''anyOf'' = Some (JList [JDict [], JDict [(''type'', JStr ''null'')]])"
    by (simp_all add: walker_example_def)
  have d: "map_of [(''additionalProperties'', JDict [])] ''additionalProperties'' = Some (JDict [])"
    by simp
  have c1: "get_subschemas (JDict walker_example) ''properties''
     = Inr ([''b'', ''a''], [JDict [(''type'', JStr ''string'')], JDict []])"
    using get_subschemas_spec [OF p, where pm = "[(''b'', JDict [(''type'', JStr ''string'')]), (''a'', JDict [])]"]
    by simp
  have c2: "get_subschemas (JDict [(''additionalProperties'', JDict [])]) ''additionalProperties''
     = Inr ([''*''], [JDict []])"
    using get_subschemas_spec [OF d, where d = "[]"] by simp
  have c3: "get_subschemas (JDict walker_example) ''additionalProperties'' = Inr ([], [])"
    using get_subschemas_spec [OF a, where b = False] by simp
  have c4: "get_subschemas (JDict walker_example) ''items'' = Inr ([''[i]''], [JDict [(''type'', JStr ''integer'')]])"
    using get_subschemas_spec [OF i] by simp
  have c5: "get_subschemas (JDict walker_example) ''not'' = Inr ([''not''], [JDict []])"
    using get_subschemas_spec [OF n] by simp
  have s1: "str_nat (Suc 0) = ''1''" and s2: "str_nat (Suc (Suc 0)) = ''2''"
    by (simp_all add: str_nat.simps)
  have c6: "get_subschemas (JDict walker_example) ''anyOf''
     = Inr ([''anyOf[1]'', ''anyOf[2]''], [JDict [], JDict [(''type'', JStr ''null'')]])"
    using get_subschemas_spec [OF c, where xs = "[JDict [], JDict [(''type'', JStr ''null'')]]"]
    by (simp add: composition_keys_def s1 s2 upt_rec)
  show ?thesis using c1 c2 c3 c4 c5 c6 by blast
qed

subsection \<open>\<^verbatim>\<open>subschema_is_required\<close>\<close>

text \<open>\<^verbatim>\<open>v > 0\<close>: integers compare by value, \<open>True\<close> and \<open>False\<close> count as 1 and 0, any
  other value raises.\<close>

fun py_gt_zero :: "json \<Rightarrow> bool result" where
  "py_gt_zero (JInt n) = Inr (0 < n)"
| "py_gt_zero (JBool b) = Inr b"
| "py_gt_zero _ = Inl TypeError"

definition array_items_are_required :: "json \<Rightarrow> bool result" where
  "array_items_are_required schema =
     (case py_in ''minItems'' schema of
        Inl e \<Rightarrow> Inl e
      | Inr present \<Rightarrow>
          if \<not> present then Inr False
          else (case py_getitem schema ''minItems'' of Inl e \<Rightarrow> Inl e | Inr v \<Rightarrow> py_gt_zero v))"

text \<open>\<^verbatim>\<open>schema.get(key, default)\<close>: only a dict has the method.\<close>

fun py_get :: "json \<Rightarrow> string \<Rightarrow> json \<Rightarrow> json result" where
  "py_get (JDict kvs) key dflt = Inr (case map_of kvs key of None \<Rightarrow> dflt | Some v \<Rightarrow> v)"
| "py_get _ key dflt = Inl AttributeError"

definition subschema_is_required :: "json \<Rightarrow> string \<Rightarrow> string \<Rightarrow> bool result" where
  "subschema_is_required schema key sub_key =
     (if key = ''properties'' then
        (case py_get schema ''required'' (JList []) of Inl e \<Rightarrow> Inl e | Inr req \<Rightarrow> py_in sub_key req)
      else if key = ''items'' then array_items_are_required schema
      else Inr False)"

text \<open>
  C9. \<open>subschema_is_required\<close>: for the key \<open>properties\<close> the answer is whether
  \<open>sub_key\<close> is a member of the node's \<open>required\<close> list, and \<open>False\<close> when the node has no
  \<open>required\<close>; for the key \<open>items\<close> it is \<open>array_items_are_required\<close>, that is whether
  the integer \<open>minItems\<close> is greater than 0, and \<open>False\<close> when \<open>minItems\<close> is absent; for
  every other key it is \<open>False\<close> whatever the node holds.
\<close>

theorem subschema_is_required_spec:
  "(key = ''properties'' \<and> map_of kvs ''required'' = None \<longrightarrow>
      subschema_is_required (JDict kvs) key sub_key = Inr False) \<and>
   (key = ''properties'' \<and> map_of kvs ''required'' = Some (JList xs) \<longrightarrow>
      subschema_is_required (JDict kvs) key sub_key = Inr (JStr sub_key \<in> set xs)) \<and>
   (key = ''items'' \<and> map_of kvs ''minItems'' = None \<longrightarrow>
      subschema_is_required (JDict kvs) key sub_key = Inr False \<and>
      array_items_are_required (JDict kvs) = Inr False) \<and>
   (key = ''items'' \<and> map_of kvs ''minItems'' = Some (JInt n) \<longrightarrow>
      subschema_is_required (JDict kvs) key sub_key = Inr (0 < n) \<and>
      array_items_are_required (JDict kvs) = Inr (0 < n)) \<and>
   (key \<noteq> ''properties'' \<and> key \<noteq> ''items'' \<longrightarrow>
      subschema_is_required schema key sub_key = Inr False)"
proof (intro conjI impI)
  assume "key = ''properties'' \<and> map_of kvs ''required'' = None"
  then show "subschema_is_required (JDict kvs) key sub_key = Inr False"
    by (simp add: subschema_is_required_def)
next
  assume "key = ''properties'' \<and> map_of kvs ''required'' = Some (JList xs)"
  then show "subschema_is_required (JDict kvs) key sub_key = Inr (JStr sub_key \<in> set xs)"
    by (simp add: subschema_is_required_def)
next
  assume a: "key = ''items'' \<and> map_of kvs ''minItems'' = None"
  then have absent: "''minItems'' \<notin> set (map fst kvs)"
    by (simp add: map_of_eq_None_iff)
  then show "array_items_are_required (JDict kvs) = Inr False"
    by (simp add: array_items_are_required_def)
  then show "subschema_is_required (JDict kvs) key sub_key = Inr False"
    using a by (simp add: subschema_is_required_def)
next
  assume a: "key = ''items'' \<and> map_of kvs ''minItems'' = Some (JInt n)"
  then have present: "''minItems'' \<in> set (map fst kvs)"
    by (metis map_of_eq_None_iff option.distinct(1) set_map)
  then show "array_items_are_required (JDict kvs) = Inr (0 < n)"
    using a by (simp add: array_items_are_required_def)
  then show "subschema_is_required (JDict kvs) key sub_key = Inr (0 < n)"
    using a by (simp add: subschema_is_required_def)
next
  assume "key \<noteq> ''properties'' \<and> key \<noteq> ''items''"
  then show "subschema_is_required schema key sub_key = Inr False"
    by (simp add: subschema_is_required_def)
qed

definition required_example :: "(string \<times> json) list" where
  "required_example =
     [(''type'', JStr ''object''), (''required'', JList [JStr ''name'', JStr ''id'']), (''minItems'', JInt 2)]"

theorem subschema_is_required_spec_witness:
  "subschema_is_required (JDict []) ''properties'' ''name'' = Inr False \<and>
   subschema_is_required (JDict required_example) ''properties'' ''id'' = Inr True \<and>
   subschema_is_required (JDict required_example) ''properties'' ''age'' = Inr False \<and>
   subschema_is_required (JDict []) ''items'' [] = Inr False \<and>
   subschema_is_required (JDict [(''minItems'', JInt 0)]) ''items'' [] = Inr False \<and>
   subschema_is_required (JDict required_example) ''items'' [] = Inr True \<and>
   subschema_is_required (JDict required_example) ''anyOf'' ''name'' = Inr False"
proof -
  have r: "map_of required_example ''required'' = Some (JList [JStr ''name'', JStr ''id''])"
    and m: "map_of required_example ''minItems'' = Some (JInt 2)"
    by (simp_all add: required_example_def)
  have e: "map_of ([] :: (string \<times> json) list) ''required'' = None"
    and e': "map_of ([] :: (string \<times> json) list) ''minItems'' = None"
    and z: "map_of [(''minItems'', JInt 0)] ''minItems'' = Some (JInt 0)"
    by simp_all
  have c1: "subschema_is_required (JDict []) ''properties'' ''name'' = Inr False"
    using subschema_is_required_spec [where key = "''properties''" and kvs = "[]" and sub_key = "''name''"] e
    by simp
  have c2: "subschema_is_required (JDict required_example) ''properties'' ''id'' = Inr True"
    using subschema_is_required_spec [where key = "''properties''" and kvs = required_example
        and sub_key = "''id''" and xs = "[JStr ''name'', JStr ''id'']"] r
    by simp
  have c3: "subschema_is_required (JDict required_example) ''properties'' ''age'' = Inr False"
    using subschema_is_required_spec [where key = "''properties''" and kvs = required_example
        and sub_key = "''age''" and xs = "[JStr ''name'', JStr ''id'']"] r
    by simp
  have c4: "subschema_is_required (JDict []) ''items'' [] = Inr False"
    using subschema_is_required_spec [where key = "''items''" and kvs = "[]" and sub_key = "[]"] e'
    by simp
  have c5: "subschema_is_required (JDict [(''minItems'', JInt 0)]) ''items'' [] = Inr False"
    using subschema_is_required_spec [where key = "''items''" and kvs = "[(''minItems'', JInt 0)]"
        and sub_key = "[]" and n = 0] z
    by simp
  have c6: "subschema_is_required (JDict required_example) ''items'' [] = Inr True"
    using subschema_is_required_spec [where key = "''items''" and kvs = required_example
        and sub_key = "[]" and n = 2] m
    by simp
  have c7: "subschema_is_required (JDict required_example) ''anyOf'' ''name'' = Inr False"
    using subschema_is_required_spec [where key = "''anyOf''" and schema = "JDict required_example"
        and sub_key = "''name''"]
    by simp
  show ?thesis using c1 c2 c3 c4 c5 c6 c7 by blast
qed

subsection \<open>\<^verbatim>\<open>clean_schema\<close>\<close>

definition metadata_keys :: "string list" where
  "metadata_keys = [''title'', ''description'', ''examples'', ''root_key'', ''default_auto'', ''default'']"

text \<open>The two loops of \<^verbatim>\<open>clean_schema\<close> are \<open>clean_items\<close> (over the items of a dict, where
  \<^verbatim>\<open>continue\<close> drops the item) and \<open>clean_list\<close> (over the elements of a list). An
  exception of a recursive call leaves the loop. The keys of a dict are distinct, so
  that \<^verbatim>\<open>clean[key] = ...\<close> always appends an item.\<close>

function (sequential) clean_schema :: "json \<Rightarrow> bool \<Rightarrow> json result"
  and clean_items :: "(string \<times> json) list \<Rightarrow> bool \<Rightarrow> (string \<times> json) list result"
  and clean_list :: "json list \<Rightarrow> json list result" where
  "clean_schema (JDict kvs) is_prop_dict =
     (case clean_items kvs is_prop_dict of Inl e \<Rightarrow> Inl e | Inr clean \<Rightarrow> Inr (JDict clean))"
| "clean_schema (JList xs) is_prop_dict =
     (case clean_list xs of Inl e \<Rightarrow> Inl e | Inr clean \<Rightarrow> Inr (JList clean))"
| "clean_schema _ is_prop_dict = Inl ValueError"
| "clean_items [] is_prop_dict = Inr []"
| "clean_items ((key, val) # rest) is_prop_dict =
     (if key \<in> set metadata_keys \<and> \<not> is_prop_dict then clean_items rest is_prop_dict
      else if is_dict val \<or> is_list val then
        (case clean_schema val (is_dict val \<and> key = ''properties'') of
           Inl e \<Rightarrow> Inl e
         | Inr c \<Rightarrow>
             (case clean_items rest is_prop_dict of
                Inl e \<Rightarrow> Inl e
              | Inr clean \<Rightarrow> Inr ((key, c) # clean)))
      else
        (case clean_items rest is_prop_dict of
           Inl e \<Rightarrow> Inl e
         | Inr clean \<Rightarrow> Inr ((key, val) # clean)))"
| "clean_list [] = Inr []"
| "clean_list (item # rest) =
     (if is_dict item \<or> is_list item then
        (case clean_schema item False of
           Inl e \<Rightarrow> Inl e
         | Inr c \<Rightarrow> (case clean_list rest of Inl e \<Rightarrow> Inl e | Inr clean \<Rightarrow> Inr (c # clean)))
      else (case clean_list rest of Inl e \<Rightarrow> Inl e | Inr clean \<Rightarrow> Inr (item # clean)))"
  by pat_completeness auto
termination
  by (relation "measure (\<lambda>x. case x of
          Inl (schema, b) \<Rightarrow> size schema
        | Inr (Inl (kvs, b)) \<Rightarrow> size_list (size_prod (\<lambda>_. 0) size) kvs
        | Inr (Inr xs) \<Rightarrow> size_list size xs)") auto

text \<open>
  C4. A dict under the key \<open>properties\<close> is cleaned as a \<open>properties\<close> map wherever that
  key occurs, also when \<open>properties\<close> is itself the name of a property. The schema of a
  property named \<open>properties\<close> keeps its \<open>title\<close>, where the same schema under a
  property named \<open>a\<close> loses it.
\<close>

theorem clean_schema_property_named_properties:
  "clean_schema
      (JDict [(''properties'',
               JDict [(''properties'', JDict [(''title'', JStr ''T''), (''type'', JStr ''object'')])])])
      False
     = Inr (JDict [(''properties'',
                    JDict [(''properties'', JDict [(''title'', JStr ''T''), (''type'', JStr ''object'')])])]) \<and>
   clean_schema
      (JDict [(''properties'',
               JDict [(''a'', JDict [(''title'', JStr ''T''), (''type'', JStr ''object'')])])])
      False
     = Inr (JDict [(''properties'', JDict [(''a'', JDict [(''type'', JStr ''object'')])])])"
  by (simp add: metadata_keys_def)

section \<open>Markdown renderer\<close>

subsection \<open>\<^verbatim>\<open>ref_name\<close>\<close>

text \<open>\<^verbatim>\<open>s.split(c)\<close> for a one-character separator: the maximal blocks between the
  occurrences of \<open>c\<close>, empty blocks included; never an empty list.\<close>

fun split_on :: "char \<Rightarrow> string \<Rightarrow> string list" where
  "split_on c [] = [[]]"
| "split_on c (x # xs) =
     (if x = c then [] # split_on c xs
      else (case split_on c xs of [] \<Rightarrow> [[x]] | seg # segs \<Rightarrow> (x # seg) # segs))"

definition ref_name :: "string \<Rightarrow> string result" where
  "ref_name ref =
     (let parts = split_on CHR ''#'' ref in
      if length parts = 1 then
        (let segs = split_on CHR ''.'' (parts ! 0) in
         if length segs < 2 then Inl IndexError else Inr (segs ! (length segs - 2)))
      else Inr (last (split_on CHR ''/'' (last parts))))"

lemma split_on_nonempty: "split_on c s \<noteq> []"
  by (induction s) (auto split: list.splits)

lemma split_on_length: "length (split_on c s) = Suc (length (filter (\<lambda>x. x = c) s))"
  by (induction s) (auto split: list.splits simp: split_on_nonempty)

lemma split_on_absent: "c \<notin> set s \<Longrightarrow> split_on c s = [s]"
  by (induction s) auto

lemma split_on_join: "concat (map (\<lambda>seg. c # seg) (split_on c s)) = c # s"
  by (induction s) (auto split: list.splits simp: split_on_nonempty)

lemma split_on_segments: "seg \<in> set (split_on c s) \<Longrightarrow> c \<notin> set seg"
  by (induction s arbitrary: seg) (auto split: list.splits if_splits)

lemma split_on_single: "length (split_on c s) = 1 \<longleftrightarrow> c \<notin> set s"
  by (auto simp: split_on_length filter_empty_conv)

lemma split_on_two: "length (split_on c s) < 2 \<longleftrightarrow> c \<notin> set s"
  by (auto simp: split_on_length filter_empty_conv)

text \<open>
  C10. \<open>ref_name\<close> is partial. When the reference contains \<open>#\<close> it returns the last
  \<open>/\<close>-delimited segment of the part after the last \<open>#\<close>. When it contains no \<open>#\<close>
  but at least one dot it returns the second-to-last dot-delimited segment. When it
  contains neither, indexing \<^verbatim>\<open>[-2]\<close> fails and the call raises \<open>IndexError\<close>. So
  it returns a name exactly when the reference contains \<open>#\<close> or a dot.
\<close>

theorem ref_name_partial:
  "(CHR ''#'' \<in> set ref \<longrightarrow>
      ref_name ref = Inr (last (split_on CHR ''/'' (last (split_on CHR ''#'' ref))))) \<and>
   (CHR ''#'' \<notin> set ref \<and> CHR ''.'' \<in> set ref \<longrightarrow>
      ref_name ref = Inr (split_on CHR ''.'' ref ! (length (split_on CHR ''.'' ref) - 2))) \<and>
   (CHR ''#'' \<notin> set ref \<and> CHR ''.'' \<notin> set ref \<longrightarrow> ref_name ref = Inl IndexError) \<and>
   ((\<exists>name. ref_name ref = Inr name) \<longleftrightarrow> CHR ''#'' \<in> set ref \<or> CHR ''.'' \<in> set ref)"
proof -
  have a: "ref_name ref = Inr (last (split_on CHR ''/'' (last (split_on CHR ''#'' ref))))"
    if "CHR ''#'' \<in> set ref"
    using that split_on_single [of "CHR ''#''" ref] by (simp add: ref_name_def Let_def)
  have b: "ref_name ref = Inr (split_on CHR ''.'' ref ! (length (split_on CHR ''.'' ref) - 2))"
    if "CHR ''#'' \<notin> set ref" "CHR ''.'' \<in> set ref"
    using that split_on_single [of "CHR ''#''" ref] split_on_two [of "CHR ''.''" ref]
    by (simp add: ref_name_def Let_def split_on_absent)
  have c: "ref_name ref = Inl IndexError"
    if "CHR ''#'' \<notin> set ref" "CHR ''.'' \<notin> set ref"
    using that by (simp add: ref_name_def Let_def split_on_absent)
  show ?thesis using a b c by (cases "CHR ''#'' \<in> set ref"; cases "CHR ''.'' \<in> set ref") auto
qed

theorem ref_name_partial_witness:
  "ref_name ''common.yaml#/defs/Foo'' = Inr ''Foo'' \<and>
   ref_name ''common.yaml'' = Inr ''common'' \<and>
   ref_name ''schema'' = Inl IndexError"
proof -
  have c1: "ref_name ''common.yaml#/defs/Foo'' = Inr ''Foo''"
    using ref_name_partial [of "''common.yaml#/defs/Foo''"] by simp
  have c2: "ref_name ''common.yaml'' = Inr ''common''"
    using ref_name_partial [of "''common.yaml''"] by simp
  have c3: "ref_name ''schema'' = Inl IndexError"
    using ref_name_partial [of "''schema''"] by simp
  show ?thesis using c1 c2 c3 by blast
qed

subsection \<open>The libraries the renderer calls\<close>

text \<open>
  The renderer calls functions of other packages and of Python itself. They are
  parameters of the model, one field each:
  \<^item> \<open>slug\<close>: the slug function of the text utilities, applied to an anchor string;
  \<^item> \<open>py_str\<close>: Python's \<^verbatim>\<open>str\<close> on a value that is not a string, as an f-string
    applies it;
  \<^item> \<open>to_yaml_string\<close>: the YAML serializer, called with
    \<^verbatim>\<open>end_of_file_newline=False\<close>;
  \<^item> \<open>comma_list\<close>: the Markdown comma list, called with \<^verbatim>\<open>item_as_code=True,
    as_html=False\<close>;
  \<^item> \<open>normal_list\<close>: the Markdown bulleted list, called with
    \<^verbatim>\<open>item_as_code=True\<close>;
  \<^item> \<open>code_block\<close>: the Markdown fenced code block.
\<close>

record externals =
  slug :: "string \<Rightarrow> string"
  py_str :: "json \<Rightarrow> string"
  to_yaml_string :: "json \<Rightarrow> string"
  comma_list :: "string list \<Rightarrow> string"
  normal_list :: "string list \<Rightarrow> string"
  code_block :: "string \<Rightarrow> string"

text \<open>A value inside an f-string: a string stands for itself.\<close>

definition fmt :: "externals \<Rightarrow> json \<Rightarrow> string" where
  "fmt lib v = (case v of JStr s \<Rightarrow> s | _ \<Rightarrow> py_str lib v)"

text \<open>\<^verbatim>\<open>sep.join(xs)\<close>\<close>

fun py_join :: "string \<Rightarrow> string list \<Rightarrow> string" where
  "py_join sep [] = []"
| "py_join sep [x] = x"
| "py_join sep (x # y # ys) = x @ sep @ py_join sep (y # ys)"

definition INLINE_MAX_LINE_LENGTH :: nat where
  "INLINE_MAX_LINE_LENGTH = 50"

definition newline :: char where
  "newline = CHR 0x0A"

definition text_can_be_inline :: "string \<Rightarrow> bool" where
  "text_can_be_inline text \<longleftrightarrow> newline \<notin> set text \<and> length text \<le> INLINE_MAX_LINE_LENGTH"

text \<open>\<^verbatim>\<open>s.removesuffix(suf)\<close>\<close>

definition removesuffix :: "string \<Rightarrow> string \<Rightarrow> string" where
  "removesuffix suf s =
     (if length suf \<le> length s \<and> drop (length s - length suf) s = suf
      then take (length s - length suf) s else s)"

text \<open>The link to a referenced schema, as \<open>type_to_md\<close> and \<open>if_to_md\<close> build it: the
  anchor is computed first, then \<open>ref_name\<close> is called on the reference, which must be a
  string to have the method \<^verbatim>\<open>split\<close>.\<close>

definition ref_link :: "externals \<Rightarrow> string \<Rightarrow> json \<Rightarrow> string result" where
  "ref_link lib tag_prefix_refs ref =
     (let ref_tag = slug lib (tag_prefix_refs @ ''-'' @ fmt lib ref) in
      case ref of
        JStr r \<Rightarrow>
          (case ref_name r of
             Inl e \<Rightarrow> Inl e
           | Inr name \<Rightarrow> Inr (''[`'' @ name @ ''`](#'' @ ref_tag @ '')''))
      | _ \<Rightarrow> Inl AttributeError)"

subsection \<open>\<^verbatim>\<open>type_to_md\<close>\<close>

definition type_to_md :: "externals \<Rightarrow> json \<Rightarrow> string \<Rightarrow> string \<Rightarrow> (string \<times> bool) result" where
  "type_to_md lib schema key tag_prefix_refs =
     (case py_in ''$ref'' schema of
        Inl e \<Rightarrow> Inl e
      | Inr has_ref \<Rightarrow>
          if has_ref then
            (case py_getitem schema ''$ref'' of
               Inl e \<Rightarrow> Inl e
             | Inr ref \<Rightarrow>
                 (case ref_link lib tag_prefix_refs ref of
                    Inl e \<Rightarrow> Inl e
                  | Inr link \<Rightarrow> Inr (link, True)))
          else
            (case py_get schema key JNull of
               Inl e \<Rightarrow> Inl e
             | Inr dtype \<Rightarrow>
                 (case dtype of
                    JStr s \<Rightarrow> Inr (''`'' @ s @ ''`'', True)
                  | JList vs \<Rightarrow> Inr (py_join '' or '' (map (\<lambda>v. ''`'' @ fmt lib v @ ''`'') vs), True)
                  | JNull \<Rightarrow>
                      if list_ex (\<lambda>k. has_key k schema) [''anyOf'', ''oneOf'', ''allOf'', ''not'', ''if'']
                      then Inr (''`complex`'', True)
                      else Inr (''`any`'', True)
                  | _ \<Rightarrow> Inl ValueError)))"

subsection \<open>\<^verbatim>\<open>if_to_md\<close>\<close>

text \<open>The loop over \<open>if\<close>, \<open>then\<close>, \<open>else\<close> with the list \<open>output\<close> it appends to. A key
  that is absent ends the loop (\<^verbatim>\<open>break\<close>).\<close>

fun if_loop ::
  "externals \<Rightarrow> json \<Rightarrow> string \<Rightarrow> string \<Rightarrow> string \<Rightarrow> string list \<Rightarrow> string list \<Rightarrow> string list result"
where
  "if_loop lib schema fullpath tag_prefix tag_prefix_refs [] output = Inr output"
| "if_loop lib schema fullpath tag_prefix tag_prefix_refs (key # keys) output =
     (case py_in key schema of
        Inl e \<Rightarrow> Inl e
      | Inr present \<Rightarrow>
          if \<not> present then Inr output
          else
            (case py_getitem schema key of
               Inl e \<Rightarrow> Inl e
             | Inr sub \<Rightarrow>
                 (case py_in ''$ref'' sub of
                    Inl e \<Rightarrow> Inl e
                  | Inr has_ref \<Rightarrow>
                      if has_ref then
                        (case py_getitem sub ''$ref'' of
                           Inl e \<Rightarrow> Inl e
                         | Inr ref \<Rightarrow>
                             (case ref_link lib tag_prefix_refs ref of
                                Inl e \<Rightarrow> Inl e
                              | Inr link \<Rightarrow>
                                  if_loop lib schema fullpath tag_prefix tag_prefix_refs keys
                                    (output @ [key, link])))
                      else
                        if_loop lib schema fullpath tag_prefix tag_prefix_refs keys
                          (output @ [key, ''[`'' @ key @ ''`](#''
                             @ slug lib (tag_prefix @ ''-'' @ fullpath @ ''-'' @ key) @ '')'']))))"

definition if_to_md ::
  "externals \<Rightarrow> json \<Rightarrow> string \<Rightarrow> string \<Rightarrow> string \<Rightarrow> (string option \<times> bool) result"
where
  "if_to_md lib schema fullpath tag_prefix tag_prefix_refs =
     (case if_loop lib schema fullpath tag_prefix tag_prefix_refs [''if'', ''then'', ''else''] [] of
        Inl e \<Rightarrow> Inl e
      | Inr output \<Rightarrow>
          if output = [] then Inr (None, False) else Inr (Some (py_join '' '' output), True))"

subsection \<open>\<^verbatim>\<open>examples_to_md\<close>\<close>

definition example_text :: "externals \<Rightarrow> json \<Rightarrow> string" where
  "example_text lib example = removesuffix (newline # ''...'') (to_yaml_string lib example)"

definition examples_to_md :: "externals \<Rightarrow> json \<Rightarrow> string \<Rightarrow> (string option \<times> bool) result" where
  "examples_to_md lib schema key =
     (case py_in key schema of
        Inl e \<Rightarrow> Inl e
      | Inr present \<Rightarrow>
          if \<not> present then Inr (None, False)
          else
            (case py_getitem schema key of
               Inl e \<Rightarrow> Inl e
             | Inr examples \<Rightarrow>
                 (case py_iter examples of
                    Inl e \<Rightarrow> Inl e
                  | Inr items \<Rightarrow>
                      (let examples_text = map (example_text lib) items;
                           all_can_be_inline = list_all text_can_be_inline examples_text;
                           total_can_be_inline =
                             (sum_list (map length examples_text) \<le> INLINE_MAX_LINE_LENGTH)
                       in if all_can_be_inline \<and> total_can_be_inline then
                            Inr (Some (comma_list lib examples_text), True)
                          else if all_can_be_inline then
                            Inr (Some (normal_list lib examples_text), False)
                          else
                            Inr (Some (py_join [newline] (map (code_block lib) examples_text)),
                                 False)))))"

text \<open>A stand-in for the libraries, used where an example needs concrete functions. Its
  serializer is the YAML serializer on a plain one-line string: the string followed by
  the end-of-document mark on a line of its own.\<close>

definition plain_lib :: externals where
  "plain_lib =
     \<lparr> slug = id,
       py_str = (\<lambda>v. ''None''),
       to_yaml_string = (\<lambda>v. case v of JStr s \<Rightarrow> s @ newline # ''...'' | _ \<Rightarrow> ''null'' @ newline # ''...''),
       comma_list = (\<lambda>items. py_join '', '' (map (\<lambda>i. ''`'' @ i @ ''`'') items)),
       normal_list = (\<lambda>items. py_join [newline] (map (\<lambda>i. ''- `'' @ i @ ''`'') items)),
       code_block = (\<lambda>text. ''```'' @ newline # text @ newline # ''```'') \<rparr>"

fun is_str :: "json \<Rightarrow> bool" where
  "is_str (JStr s) = True"
| "is_str _ = False"

lemma map_of_present: "map_of kvs k = Some v \<Longrightarrow> k \<in> set (map fst kvs)"
  by (metis map_of_eq_None_iff option.distinct(1) set_map)

lemma map_of_absent: "k \<notin> set (map fst kvs) \<Longrightarrow> map_of kvs k = None"
  by (simp add: map_of_eq_None_iff)

lemma type_to_md_no_ref:
  assumes "''$ref'' \<notin> set (map fst kvs)"
  shows "type_to_md lib (JDict kvs) key tag_prefix_refs =
     (case (case map_of kvs key of None \<Rightarrow> JNull | Some v \<Rightarrow> v) of
        JStr s \<Rightarrow> Inr (''`'' @ s @ ''`'', True)
      | JList vs \<Rightarrow> Inr (py_join '' or '' (map (\<lambda>v. ''`'' @ fmt lib v @ ''`'') vs), True)
      | JNull \<Rightarrow>
          if list_ex (\<lambda>k. has_key k (JDict kvs)) [''anyOf'', ''oneOf'', ''allOf'', ''not'', ''if'']
          then Inr (''`complex`'', True)
          else Inr (''`any`'', True)
      | _ \<Rightarrow> Inl ValueError)"
  using assms by (simp add: type_to_md_def)

text \<open>
  C5 (amended). For a dict node without \<open>$ref\<close>, \<open>type_to_md\<close> raises exactly when the
  \<open>type\<close> value is present, is not \<open>None\<close> and is neither a string nor a list, and the
  error is then \<open>ValueError\<close>; a \<open>None\<close> value is treated as an absent one. Otherwise
  it returns a pair with inline flag \<open>True\<close>: a single code token for a string type, an
  \<open>or\<close>-joined token list for a list type, and for an absent or \<open>None\<close> type the token
  \<open>complex\<close> when one of \<open>anyOf\<close>, \<open>oneOf\<close>, \<open>allOf\<close>, \<open>not\<close>, \<open>if\<close> is present, else
  \<open>any\<close>. For a node whose \<open>$ref\<close> is a string on which \<open>ref_name\<close> returns a name, it
  returns the link to the reference, whatever \<open>type\<close> holds.
\<close>

theorem type_to_md_spec:
  "(map_of kvs ''$ref'' = Some (JStr r) \<and> ref_name r = Inr name \<longrightarrow>
      type_to_md lib (JDict kvs) key tag_prefix_refs
        = Inr (''[`'' @ name @ ''`](#'' @ slug lib (tag_prefix_refs @ ''-'' @ r) @ '')'', True)) \<and>
   (''$ref'' \<notin> set (map fst kvs) \<longrightarrow>
      (type_to_md lib (JDict kvs) key tag_prefix_refs = Inl ValueError \<longleftrightarrow>
         (\<exists>v. map_of kvs key = Some v \<and> v \<noteq> JNull \<and> \<not> is_str v \<and> \<not> is_list v)) \<and>
      (\<forall>e. type_to_md lib (JDict kvs) key tag_prefix_refs = Inl e \<longrightarrow> e = ValueError) \<and>
      (map_of kvs key = Some (JStr s) \<longrightarrow>
         type_to_md lib (JDict kvs) key tag_prefix_refs = Inr (''`'' @ s @ ''`'', True)) \<and>
      (map_of kvs key = Some (JList vs) \<longrightarrow>
         type_to_md lib (JDict kvs) key tag_prefix_refs
           = Inr (py_join '' or '' (map (\<lambda>v. ''`'' @ fmt lib v @ ''`'') vs), True)) \<and>
      (map_of kvs key = None \<or> map_of kvs key = Some JNull \<longrightarrow>
         type_to_md lib (JDict kvs) key tag_prefix_refs
           = Inr (if list_ex (\<lambda>k. k \<in> set (map fst kvs)) [''anyOf'', ''oneOf'', ''allOf'', ''not'', ''if'']
                  then ''`complex`'' else ''`any`'', True))) \<and>
   type_to_md lib (JDict [(''type'', JStr ''string'')]) ''type'' tag_prefix_refs
     = Inr (''`string`'', True) \<and>
   type_to_md lib (JDict [(''type'', JList [JStr ''string'', JStr ''null''])]) ''type'' tag_prefix_refs
     = Inr (''`string` or `null`'', True) \<and>
   type_to_md lib (JDict []) ''type'' tag_prefix_refs = Inr (''`any`'', True) \<and>
   type_to_md lib (JDict [(''anyOf'', subschemas)]) ''type'' tag_prefix_refs
     = Inr (''`complex`'', True)"
proof (intro conjI impI)
  assume a: "map_of kvs ''$ref'' = Some (JStr r) \<and> ref_name r = Inr name"
  then have "''$ref'' \<in> set (map fst kvs)" using map_of_present by fast
  then show "type_to_md lib (JDict kvs) key tag_prefix_refs
        = Inr (''[`'' @ name @ ''`](#'' @ slug lib (tag_prefix_refs @ ''-'' @ r) @ '')'', True)"
    using a by (simp add: type_to_md_def ref_link_def fmt_def)
next
  assume n: "''$ref'' \<notin> set (map fst kvs)"
  note eq = type_to_md_no_ref [OF n, of lib key tag_prefix_refs]
  show "type_to_md lib (JDict kvs) key tag_prefix_refs = Inl ValueError \<longleftrightarrow>
         (\<exists>v. map_of kvs key = Some v \<and> v \<noteq> JNull \<and> \<not> is_str v \<and> \<not> is_list v)"
  proof (cases "map_of kvs key")
    case None
    then show ?thesis using eq by simp
  next
    case (Some v)
    then show ?thesis using eq by (cases v) simp_all
  qed
  show "\<forall>e. type_to_md lib (JDict kvs) key tag_prefix_refs = Inl e \<longrightarrow> e = ValueError"
  proof (cases "map_of kvs key")
    case None
    then show ?thesis using eq by simp
  next
    case (Some v)
    then show ?thesis using eq by (cases v) simp_all
  qed
  show "type_to_md lib (JDict kvs) key tag_prefix_refs = Inr (''`'' @ s @ ''`'', True)"
    if "map_of kvs key = Some (JStr s)"
    using that eq by simp
  show "type_to_md lib (JDict kvs) key tag_prefix_refs
           = Inr (py_join '' or '' (map (\<lambda>v. ''`'' @ fmt lib v @ ''`'') vs), True)"
    if "map_of kvs key = Some (JList vs)"
    using that eq by simp
  show "type_to_md lib (JDict kvs) key tag_prefix_refs
           = Inr (if list_ex (\<lambda>k. k \<in> set (map fst kvs)) [''anyOf'', ''oneOf'', ''allOf'', ''not'', ''if'']
                  then ''`complex`'' else ''`any`'', True)"
    if "map_of kvs key = None \<or> map_of kvs key = Some JNull"
    using that eq by (auto simp: has_key_def)
next
  show "type_to_md lib (JDict [(''type'', JStr ''string'')]) ''type'' tag_prefix_refs
     = Inr (''`string`'', True)"
    by (simp add: type_to_md_def)
  show "type_to_md lib (JDict [(''type'', JList [JStr ''string'', JStr ''null''])]) ''type'' tag_prefix_refs
     = Inr (''`string` or `null`'', True)"
    by (simp add: type_to_md_def fmt_def)
  show "type_to_md lib (JDict []) ''type'' tag_prefix_refs = Inr (''`any`'', True)"
    by (simp add: type_to_md_def has_key_def)
  show "type_to_md lib (JDict [(''anyOf'', subschemas)]) ''type'' tag_prefix_refs
     = Inr (''`complex`'', True)"
    by (simp add: type_to_md_def has_key_def)
qed

text \<open>
  C5 as stated fails in both directions: a node whose \<open>type\<close> is present with the value
  \<open>None\<close> is rendered as \<open>any\<close> instead of raising, and a node with \<open>$ref\<close> raises
  when \<open>ref_name\<close> does.
\<close>

theorem type_to_md_counterexample:
  "type_to_md plain_lib (JDict [(''type'', JNull)]) ''type'' [] = Inr (''`any`'', True) \<and>
   type_to_md plain_lib (JDict [(''$ref'', JStr ''schema'')]) ''type'' [] = Inl IndexError"
  by (simp add: type_to_md_def has_key_def ref_link_def ref_name_def)

theorem type_to_md_spec_witness:
  "type_to_md plain_lib (JDict [(''$ref'', JStr ''common.yaml#/defs/Foo''), (''type'', JInt 5)]) ''type'' ''refs''
     = Inr (''[`Foo`](#refs-common.yaml#/defs/Foo)'', True) \<and>
   type_to_md plain_lib (JDict [(''type'', JInt 5)]) ''type'' ''refs'' = Inl ValueError \<and>
   type_to_md plain_lib (JDict [(''type'', JStr ''integer'')]) ''type'' ''refs'' = Inr (''`integer`'', True) \<and>
   type_to_md plain_lib (JDict [(''type'', JList [JStr ''integer'', JStr ''null''])]) ''type'' ''refs''
     = Inr (''`integer` or `null`'', True) \<and>
   type_to_md plain_lib (JDict [(''type'', JNull), (''not'', JDict [])]) ''type'' ''refs''
     = Inr (''`complex`'', True) \<and>
   type_to_md plain_lib (JDict [(''title'', JStr ''t'')]) ''type'' ''refs'' = Inr (''`any`'', True)"
proof -
  have rn: "ref_name ''common.yaml#/defs/Foo'' = Inr ''Foo''"
    by (simp add: ref_name_def)
  have c1: "type_to_md plain_lib (JDict [(''$ref'', JStr ''common.yaml#/defs/Foo''), (''type'', JInt 5)]) ''type'' ''refs''
     = Inr (''[`Foo`](#refs-common.yaml#/defs/Foo)'', True)"
    using type_to_md_spec [where kvs = "[(''$ref'', JStr ''common.yaml#/defs/Foo''), (''type'', JInt 5)]"
        and r = "''common.yaml#/defs/Foo''" and name = "''Foo''" and lib = plain_lib
        and key = "''type''" and tag_prefix_refs = "''refs''"] rn
    by (simp add: plain_lib_def)
  have c2: "type_to_md plain_lib (JDict [(''type'', JInt 5)]) ''type'' ''refs'' = Inl ValueError"
    using type_to_md_spec [where kvs = "[(''type'', JInt 5)]" and lib = plain_lib
        and key = "''type''" and tag_prefix_refs = "''refs''"]
    by simp
  have c3: "type_to_md plain_lib (JDict [(''type'', JStr ''integer'')]) ''type'' ''refs'' = Inr (''`integer`'', True)"
    using type_to_md_spec [where kvs = "[(''type'', JStr ''integer'')]" and lib = plain_lib
        and key = "''type''" and tag_prefix_refs = "''refs''" and s = "''integer''"]
    by simp
  have c4: "type_to_md plain_lib (JDict [(''type'', JList [JStr ''integer'', JStr ''null''])]) ''type'' ''refs''
     = Inr (''`integer` or `null`'', True)"
    using type_to_md_spec [where kvs = "[(''type'', JList [JStr ''integer'', JStr ''null''])]" and lib = plain_lib
        and key = "''type''" and tag_prefix_refs = "''refs''" and vs = "[JStr ''integer'', JStr ''null'']"]
    by (simp add: fmt_def)
  have c5: "type_to_md plain_lib (JDict [(''type'', JNull), (''not'', JDict [])]) ''type'' ''refs''
     = Inr (''`complex`'', True)"
    using type_to_md_spec [where kvs = "[(''type'', JNull), (''not'', JDict [])]" and lib = plain_lib
        and key = "''type''" and tag_prefix_refs = "''refs''"]
    by simp
  have c6: "type_to_md plain_lib (JDict [(''title'', JStr ''t'')]) ''type'' ''refs'' = Inr (''`any`'', True)"
    using type_to_md_spec [where kvs = "[(''title'', JStr ''t'')]" and lib = plain_lib
        and key = "''type''" and tag_prefix_refs = "''refs''"]
    by simp
  show ?thesis using c1 c2 c3 c4 c5 c6 by blast
qed

text \<open>
  C8. The loop of \<open>if_to_md\<close> leaves at the first absent key. For a node with \<open>if\<close> and
  \<open>else\<close> but no \<open>then\<close>, the output holds the tokens of \<open>if\<close> only: nothing is
  emitted for \<open>else\<close>.
\<close>

theorem if_to_md_else_without_then:
  "if_to_md lib (JDict [(''if'', JDict []), (''else'', JDict [])]) fullpath tag_prefix tag_prefix_refs
     = Inr (Some (''if [`if`](#'' @ slug lib (tag_prefix @ ''-'' @ fullpath @ ''-if'') @ '')''), True)"
  by (simp add: if_to_md_def)

lemma examples_to_md_list:
  assumes "map_of kvs key = Some (JList xs)"
  shows "examples_to_md lib (JDict kvs) key =
     (let examples_text = map (example_text lib) xs in
      if list_all text_can_be_inline examples_text
           \<and> sum_list (map length examples_text) \<le> INLINE_MAX_LINE_LENGTH
      then Inr (Some (comma_list lib examples_text), True)
      else if list_all text_can_be_inline examples_text
      then Inr (Some (normal_list lib examples_text), False)
      else Inr (Some (py_join [newline] (map (code_block lib) examples_text)), False))"
  using assms map_of_present [OF assms] by (simp add: examples_to_md_def Let_def)

text \<open>
  C7 (amended). Let the \<open>examples\<close> value of a node be a list and \<open>texts\<close> its serialized
  examples. The result is the comma-separated list with inline flag \<open>True\<close> exactly when
  every text is on a single line with at most 50 characters and the combined length of
  the texts is at most 50 (a combined length of exactly 50 is still inline). When every
  text is inline-eligible and the combined length exceeds 50, the result is the block
  list with flag \<open>False\<close>. When some text is not inline-eligible (it spans several lines
  or is longer than 50 characters), the result is one code block per example, joined by
  newlines, with flag \<open>False\<close>.
\<close>

theorem examples_to_md_spec:
  assumes "map_of kvs key = Some (JList xs)"
    and "texts = map (example_text lib) xs"
  shows "((\<forall>t \<in> set texts. newline \<notin> set t \<and> length t \<le> 50) \<and> sum_list (map length texts) \<le> 50
            \<longrightarrow> examples_to_md lib (JDict kvs) key = Inr (Some (comma_list lib texts), True)) \<and>
         ((\<forall>t \<in> set texts. newline \<notin> set t \<and> length t \<le> 50) \<and> 50 < sum_list (map length texts)
            \<longrightarrow> examples_to_md lib (JDict kvs) key = Inr (Some (normal_list lib texts), False)) \<and>
         ((\<exists>t \<in> set texts. newline \<in> set t \<or> 50 < length t)
            \<longrightarrow> examples_to_md lib (JDict kvs) key
                  = Inr (Some (py_join [newline] (map (code_block lib) texts)), False)) \<and>
         ((\<exists>md. examples_to_md lib (JDict kvs) key = Inr (md, True))
            \<longleftrightarrow> (\<forall>t \<in> set texts. newline \<notin> set t \<and> length t \<le> 50)
                  \<and> sum_list (map length texts) \<le> 50)"
proof -
  have all: "list_all text_can_be_inline texts \<longleftrightarrow> (\<forall>t \<in> set texts. newline \<notin> set t \<and> length t \<le> 50)"
    by (simp add: list_all_iff text_can_be_inline_def INLINE_MAX_LINE_LENGTH_def)
  have ex: "(\<exists>t \<in> set texts. newline \<in> set t \<or> 50 < length t) \<longleftrightarrow> \<not> list_all text_can_be_inline texts"
    unfolding all by (auto simp: not_le)
  have run: "examples_to_md lib (JDict kvs) key =
      (if list_all text_can_be_inline texts \<and> sum_list (map length texts) \<le> 50
       then Inr (Some (comma_list lib texts), True)
       else if list_all text_can_be_inline texts
       then Inr (Some (normal_list lib texts), False)
       else Inr (Some (py_join [newline] (map (code_block lib) texts)), False))"
    unfolding examples_to_md_list [OF assms(1)] assms(2) Let_def INLINE_MAX_LINE_LENGTH_def ..
  show ?thesis
    unfolding ex all [symmetric] run by (simp add: not_le)
qed

text \<open>
  C7 as stated asks for a combined length strictly below 50. Two examples of 25
  characters each have a combined length of exactly 50 and are rendered inline.
\<close>

definition examples_example :: json where
  "examples_example =
     JDict [(''examples'', JList [JStr ''aaaaaaaaaaaaaaaaaaaaaaaaa'', JStr ''bbbbbbbbbbbbbbbbbbbbbbbbb''])]"

theorem examples_to_md_counterexample:
  "sum_list (map (length \<circ> example_text plain_lib)
       [JStr ''aaaaaaaaaaaaaaaaaaaaaaaaa'', JStr ''bbbbbbbbbbbbbbbbbbbbbbbbb'']) = 50 \<and>
   examples_to_md plain_lib examples_example ''examples''
     = Inr (Some ''`aaaaaaaaaaaaaaaaaaaaaaaaa`, `bbbbbbbbbbbbbbbbbbbbbbbbb`'', True)"
  by (simp add: examples_to_md_def examples_example_def example_text_def plain_lib_def removesuffix_def
      text_can_be_inline_def INLINE_MAX_LINE_LENGTH_def newline_def)

theorem examples_to_md_spec_witness:
  "examples_to_md plain_lib (JDict [(''examples'', JList [JStr ''a'', JStr ''b''])]) ''examples''
     = Inr (Some ''`a`, `b`'', True) \<and>
   examples_to_md plain_lib
       (JDict [(''examples'', JList [JStr ''aaaaaaaaaaaaaaaaaaaaaaaaa'', JStr ''bbbbbbbbbbbbbbbbbbbbbbbbbb''])])
       ''examples''
     = Inr (Some (''- `aaaaaaaaaaaaaaaaaaaaaaaaa`'' @ newline # ''- `bbbbbbbbbbbbbbbbbbbbbbbbbb`''), False) \<and>
   examples_to_md plain_lib (JDict [(''examples'', JList [JStr (''a'' @ newline # ''b'')])]) ''examples''
     = Inr (Some (''```'' @ newline # ''a'' @ newline # ''b'' @ newline # ''```''), False)"
proof -
  have t1: "map (example_text plain_lib) [JStr ''a'', JStr ''b''] = [''a'', ''b'']"
    by (simp add: example_text_def plain_lib_def removesuffix_def newline_def)
  have t2: "map (example_text plain_lib) [JStr ''aaaaaaaaaaaaaaaaaaaaaaaaa'', JStr ''bbbbbbbbbbbbbbbbbbbbbbbbbb'']
      = [''aaaaaaaaaaaaaaaaaaaaaaaaa'', ''bbbbbbbbbbbbbbbbbbbbbbbbbb'']"
    by (simp add: example_text_def plain_lib_def removesuffix_def newline_def)
  have t3: "map (example_text plain_lib) [JStr (''a'' @ newline # ''b'')] = [''a'' @ newline # ''b'']"
    by (simp add: example_text_def plain_lib_def removesuffix_def newline_def)
  have c1: "examples_to_md plain_lib (JDict [(''examples'', JList [JStr ''a'', JStr ''b''])]) ''examples''
     = Inr (Some ''`a`, `b`'', True)"
  proof -
    have m: "map_of [(''examples'', JList [JStr ''a'', JStr ''b''])] ''examples''
        = Some (JList [JStr ''a'', JStr ''b''])"
      by simp
    have "examples_to_md plain_lib (JDict [(''examples'', JList [JStr ''a'', JStr ''b''])]) ''examples''
        = Inr (Some (comma_list plain_lib [''a'', ''b'']), True)"
      using examples_to_md_spec [OF m t1 [symmetric]] by (simp add: newline_def)
    then show ?thesis by (simp add: plain_lib_def)
  qed
  have c2: "examples_to_md plain_lib
       (JDict [(''examples'', JList [JStr ''aaaaaaaaaaaaaaaaaaaaaaaaa'', JStr ''bbbbbbbbbbbbbbbbbbbbbbbbbb''])])
       ''examples''
     = Inr (Some (''- `aaaaaaaaaaaaaaaaaaaaaaaaa`'' @ newline # ''- `bbbbbbbbbbbbbbbbbbbbbbbbbb`''), False)"
  proof -
    have m: "map_of [(''examples'', JList [JStr ''aaaaaaaaaaaaaaaaaaaaaaaaa'', JStr ''bbbbbbbbbbbbbbbbbbbbbbbbbb''])]
          ''examples''
        = Some (JList [JStr ''aaaaaaaaaaaaaaaaaaaaaaaaa'', JStr ''bbbbbbbbbbbbbbbbbbbbbbbbbb''])"
      by simp
    have "examples_to_md plain_lib
         (JDict [(''examples'', JList [JStr ''aaaaaaaaaaaaaaaaaaaaaaaaa'', JStr ''bbbbbbbbbbbbbbbbbbbbbbbbbb''])])
         ''examples''
        = Inr (Some (normal_list plain_lib [''aaaaaaaaaaaaaaaaaaaaaaaaa'', ''bbbbbbbbbbbbbbbbbbbbbbbbbb'']), False)"
      using examples_to_md_spec [OF m t2 [symmetric]] by (simp add: newline_def)
    then show ?thesis by (simp add: plain_lib_def)
  qed
  have c3: "examples_to_md plain_lib (JDict [(''examples'', JList [JStr (''a'' @ newline # ''b'')])]) ''examples''
     = Inr (Some (''```'' @ newline # ''a'' @ newline # ''b'' @ newline # ''```''), False)"
  proof -
    have m: "map_of [(''examples'', JList [JStr (''a'' @ newline # ''b'')])] ''examples''
        = Some (JList [JStr (''a'' @ newline # ''b'')])"
      by simp
    have "examples_to_md plain_lib (JDict [(''examples'', JList [JStr (''a'' @ newline # ''b'')])]) ''examples''
        = Inr (Some (py_join [newline] (map (code_block plain_lib) [''a'' @ newline # ''b''])), False)"
      using examples_to_md_spec [OF m t3 [symmetric]] by simp
    then show ?thesis by (simp add: plain_lib_def)
  qed
  show ?thesis using c1 c2 c3 by blast
qed

end
